theory Spec2Isabelle
  imports Main
begin

section \<open>The settings loader of orion-ui/src/services/uiSettings.ts\<close>

text \<open>
  The source is one class with three static slots and two asynchronous methods:
  \<^verbatim>\<open>
  export class UiSettings {
    public static settings: Settings | null = null
    private static promise: Promise<Settings> | null = null
    private static readonly baseUrl =
      MODE() === 'development' ? 'http://127.0.0.1:4200' : window.location.origin
    public static async load(): Promise<Settings> { ... }
    public static async get<T extends keyof Settings>(setting: T, defaultValue?: Settings[T])
  }
  function mapSettingsResponse(response: AxiosResponse<SettingsResponse>): Settings
  \<close>
  JavaScript runs it on one thread. The embedding is a deterministic transition function
  on an explicit runtime state: the three static slots, the promise objects the class
  creates (a store indexed by address), the queue of promise jobs (microtasks), and logs
  of what the code did to its collaborators (requests handed to axios, toasts shown).
  The environment drives it with events: the application calls \<open>load()\<close> or
  \<open>get()\<close>, a request settles, the engine runs the next promise job.
\<close>

subsection \<open>JavaScript values\<close>

text \<open>
  The values a setting, a default or an error's \<open>status\<close> can hold at run time.
  \<open>JUndefined\<close> is also what reading an absent property gives and what an omitted
  optional argument is. \<open>JNum\<close> holds the integral numbers (no NaN, no fractions);
  \<open>JBuiltin\<close> stands for a member inherited from \<open>Object.prototype\<close>.
\<close>

datatype jsval =
    JUndefined
  | JNull
  | JBool bool
  | JNum int
  | JStr string
  | JBuiltin string

text \<open>\<open>ToBoolean\<close>, as \<open>!error.status\<close> and \<open>if (defaultValue)\<close> apply it.\<close>

fun truthy :: "jsval \<Rightarrow> bool" where
  "truthy JUndefined = False"
| "truthy JNull = False"
| "truthy (JBool b) = b"
| "truthy (JNum n) = (n \<noteq> 0)"
| "truthy (JStr s) = (s \<noteq> [])"
| "truthy (JBuiltin _) = True"

datatype js_error =
    TypeError         \<comment> \<open>reading a property of \<open>undefined\<close> or \<open>null\<close>\<close>
  | Thrown string     \<comment> \<open>the \<open>throw\<close> statement of \<open>get\<close>, which throws a string\<close>

subsection \<open>Data model\<close>

record SettingsResponse =
  api_url :: jsval

record Settings =
  apiUrl :: jsval

text \<open>
  What axios resolves with. \<open>data\<close> is the parsed body; \<open>None\<close> is a body that
  is \<open>null\<close> or \<open>undefined\<close>, on which a property read throws. A body without an
  \<open>api_url\<close> member has \<open>api_url = JUndefined\<close>.
\<close>

record AxiosResponse =
  data :: "SettingsResponse option"

text \<open>What axios rejects with: an error object; \<open>status\<close> is \<open>JUndefined\<close> when the
  object has no such field.\<close>

record AxiosError =
  status :: jsval

text \<open>
  \<^verbatim>\<open>
  function mapSettingsResponse(response) {
    const settings = response.data
    return { apiUrl: settings.api_url }
  }
  \<close>
  The argument is whatever the previous link of the promise chain produced: a response,
  or \<open>undefined\<close> (\<open>None\<close>) after the \<open>catch\<close> handler ran.
\<close>

definition mapSettingsResponse :: "AxiosResponse option \<Rightarrow> js_error + Settings" where
  "mapSettingsResponse response =
     (case response of
        None \<Rightarrow> Inl TypeError
      | Some r \<Rightarrow>
          (case data r of
             None \<Rightarrow> Inl TypeError
           | Some settings \<Rightarrow> Inr \<lparr>apiUrl = api_url settings\<rparr>))"

subsection \<open>Runtime state\<close>

type_synonym cid = nat  \<comment> \<open>names one call of \<open>load()\<close> or \<open>get()\<close> made by the application\<close>
type_synonym pid = nat  \<comment> \<open>address of a promise object in the store\<close>

text \<open>Who a running \<open>load()\<close> returns to: the application, or a \<open>get\<close> that awaits it.\<close>

datatype caller =
    App cid
  | Get cid string jsval

text \<open>
  What waits on the promise held in the static \<open>promise\<close> slot:
  \<open>Await\<close> is the rest of the \<open>load()\<close> that created it (lines 41 to 43),
  \<open>Follow\<close> is a \<open>load()\<close> that returned it (line 27), whose own result adopts it.
\<close>

datatype reaction =
    Await caller
  | Follow caller

datatype task =
    React reaction Settings
  | Get_resume cid string jsval

record promise_cell =
  pstate :: "Settings option"      \<comment> \<open>\<open>None\<close> while pending; \<open>resolve\<close> is its only settling function\<close>
  reactions :: "reaction list"

record request =
  path :: string
  baseURL :: string
  resolves :: pid                  \<comment> \<open>the promise whose \<open>resolve\<close> ends this request's chain\<close>

record toast =
  message :: string
  severity :: string
  timeout :: jsval

datatype outcome =
    Load_fulfilled Settings
  | Get_fulfilled jsval
  | Rejected js_error

record runtime =
  settings :: "Settings option"        \<comment> \<open>\<open>UiSettings.settings\<close>, \<open>None\<close> is \<open>null\<close>\<close>
  promise :: "pid option"              \<comment> \<open>\<open>UiSettings.promise\<close>, \<open>None\<close> is \<open>null\<close>\<close>
  baseUrl :: string                    \<comment> \<open>\<open>UiSettings.baseUrl\<close>\<close>
  store :: "promise_cell list"
  requests :: "request list"           \<comment> \<open>every \<open>axios.get\<close> issued, in order\<close>
  outstanding :: "nat list"            \<comment> \<open>indices of the requests not settled yet\<close>
  microtasks :: "task list"
  toasts :: "toast list"               \<comment> \<open>every \<open>showToast\<close> call, in order\<close>
  unhandled :: "js_error list"         \<comment> \<open>rejections no handler took\<close>
  results :: "cid \<rightharpoonup> outcome"         \<comment> \<open>how each settled call settled; absent while pending\<close>

text \<open>
  Class initialisation. \<open>mode\<close> is what \<open>MODE()\<close> returns and \<open>origin\<close> is
  \<open>window.location.origin\<close>, both read once, here.
\<close>

definition init :: "string \<Rightarrow> string \<Rightarrow> runtime" where
  "init mode origin =
     \<lparr>settings = None,
      promise = None,
      baseUrl = (if mode = ''development'' then ''http://127.0.0.1:4200'' else origin),
      store = [],
      requests = [],
      outstanding = [],
      microtasks = [],
      toasts = [],
      unhandled = [],
      results = Map.empty\<rparr>"

subsection \<open>\<open>load\<close>\<close>

text \<open>The async function \<open>load\<close> returns \<open>s\<close>: its promise is fulfilled. A \<open>get\<close>
  awaiting it continues in a promise job of its own.\<close>

fun return_load :: "caller \<Rightarrow> Settings \<Rightarrow> runtime \<Rightarrow> runtime" where
  "return_load (App c) s st = st\<lparr>results := (results st)(c \<mapsto> Load_fulfilled s)\<rparr>"
| "return_load (Get c setting dflt) s st =
     st\<lparr>microtasks := microtasks st @ [Get_resume c setting dflt]\<rparr>"

text \<open>Waiting on promise \<open>p\<close>: a pending promise keeps the reaction, a fulfilled one
  queues its job at once.\<close>

definition subscribe :: "pid \<Rightarrow> reaction \<Rightarrow> runtime \<Rightarrow> runtime" where
  "subscribe p r st =
     (if p < length (store st) then
        (case pstate (store st ! p) of
           None \<Rightarrow>
             st\<lparr>store := (store st)[p := (store st ! p)\<lparr>reactions := reactions (store st ! p) @ [r]\<rparr>]\<rparr>
         | Some v \<Rightarrow> st\<lparr>microtasks := microtasks st @ [React r v]\<rparr>)
      else st)"

text \<open>
  \<^verbatim>\<open>
  if (this.settings !== null) { return this.settings }
  if (this.promise !== null) { return this.promise }
  this.promise = new Promise(resolve => {
    return axios.get('/ui-settings', { baseURL: this.baseUrl })
      .catch(...).then(mapSettingsResponse).then(resolve)
  })
  const settings = await this.promise
  return this.settings = settings
  \<close>
  The part up to the \<open>await\<close> runs at the call; the executor of \<open>new Promise\<close> runs
  inside it, so the request is issued before \<open>load\<close> suspends.
\<close>

definition load :: "caller \<Rightarrow> runtime \<Rightarrow> runtime" where
  "load k st =
     (case settings st of
        Some s \<Rightarrow> return_load k s st
      | None \<Rightarrow>
          (case promise st of
             Some p \<Rightarrow> subscribe p (Follow k) st
           | None \<Rightarrow>
               (let p = length (store st) in
                subscribe p (Await k)
                  (st\<lparr>store := store st @ [\<lparr>pstate = None, reactions = []\<rparr>],
                      requests := requests st @
                        [\<lparr>path = ''/ui-settings'', baseURL = baseUrl st, resolves = p\<rparr>],
                      outstanding := outstanding st @ [length (requests st)],
                      promise := Some p\<rparr>))))"

subsection \<open>The promise chain of the request\<close>

text \<open>
  The links of the chain \<open>axios.get(...).catch(...).then(...).then(resolve)\<close> are
  promises private to the executor: no other code holds them, and a link reads none of
  the static slots. A call that the engine runs between two links therefore finds what it
  would have found before the first, and the model runs the chain of a settled request in
  one step, from the settlement to \<open>resolve\<close> or to the throw that ends it.
\<close>

text \<open>\<open>resolve(s)\<close> on promise \<open>p\<close>: the first call fulfils it and queues the jobs of
  its reactions in the order they were registered; a later call does nothing.\<close>

definition resolve :: "pid \<Rightarrow> Settings \<Rightarrow> runtime \<Rightarrow> runtime" where
  "resolve p s st =
     (if p < length (store st) \<and> pstate (store st ! p) = None then
        st\<lparr>store := (store st)[p := \<lparr>pstate = Some s, reactions = []\<rparr>],
           microtasks := microtasks st @ map (\<lambda>r. React r s) (reactions (store st ! p))\<rparr>
      else st)"

text \<open>\<open>.then(mapSettingsResponse).then(resolve)\<close>: when the mapper throws, the second
  \<open>then\<close> has no rejection handler, \<open>resolve\<close> is not called and the rejection is
  left unhandled.\<close>

definition then_map_resolve :: "AxiosResponse option \<Rightarrow> pid \<Rightarrow> runtime \<Rightarrow> runtime" where
  "then_map_resolve x p st =
     (case mapSettingsResponse x of
        Inl err \<Rightarrow> st\<lparr>unhandled := unhandled st @ [err]\<rparr>
      | Inr s \<Rightarrow> resolve p s st)"

text \<open>\<open>showToast(ConnectionToastMessage, 'error', { timeout: false })\<close>\<close>

definition showToast :: "string \<Rightarrow> string \<Rightarrow> jsval \<Rightarrow> runtime \<Rightarrow> runtime" where
  "showToast m sev t st = st\<lparr>toasts := toasts st @ [\<lparr>message = m, severity = sev, timeout = t\<rparr>]\<rparr>"

text \<open>
  \<^verbatim>\<open>
  .catch((error) => {
    if (!error.status) {
      const toastMessage = ConnectionToastMessage
      showToast(toastMessage, 'error', { timeout: false })
    }
  })
  \<close>
  The handler returns nothing, so the chain goes on with \<open>undefined\<close>.
\<close>

definition catch_handler :: "AxiosError \<Rightarrow> runtime \<Rightarrow> runtime" where
  "catch_handler error st =
     (if \<not> truthy (status error)
      then showToast ''ConnectionToastMessage'' ''error'' (JBool False) st
      else st)"

text \<open>Request \<open>i\<close> settles. A fulfilled request skips the \<open>catch\<close>; a rejected one
  runs it and continues with its result.\<close>

definition fetch_fulfilled :: "nat \<Rightarrow> AxiosResponse \<Rightarrow> runtime \<Rightarrow> runtime" where
  "fetch_fulfilled i r st =
     (if i \<in> set (outstanding st) \<and> i < length (requests st) then
        then_map_resolve (Some r) (resolves (requests st ! i))
          (st\<lparr>outstanding := removeAll i (outstanding st)\<rparr>)
      else st)"

definition fetch_rejected :: "nat \<Rightarrow> AxiosError \<Rightarrow> runtime \<Rightarrow> runtime" where
  "fetch_rejected i error st =
     (if i \<in> set (outstanding st) \<and> i < length (requests st) then
        then_map_resolve None (resolves (requests st ! i))
          (catch_handler error (st\<lparr>outstanding := removeAll i (outstanding st)\<rparr>))
      else st)"

subsection \<open>\<open>get\<close>\<close>

text \<open>\<open>this.settings?.[setting]\<close>: the settings object has one own property; the
  other names that resolve are the members of \<open>Object.prototype\<close>.\<close>

definition object_prototype :: "string list" where
  "object_prototype =
     [''constructor'', ''__proto__'', ''hasOwnProperty'', ''isPrototypeOf'',
      ''propertyIsEnumerable'', ''toLocaleString'', ''toString'', ''valueOf'',
      ''__defineGetter__'', ''__defineSetter__'', ''__lookupGetter__'', ''__lookupSetter__'']"

definition lookup :: "Settings option \<Rightarrow> string \<Rightarrow> jsval" where
  "lookup ss setting =
     (case ss of
        None \<Rightarrow> JUndefined
      | Some s \<Rightarrow>
          if setting = ''apiUrl'' then apiUrl s
          else if setting \<in> set object_prototype then JBuiltin setting
          else JUndefined)"

definition missing_setting :: "string \<Rightarrow> string" where
  "missing_setting setting =
     ''UI setting \"'' @ setting @ ''\" does not exist and no default was provided.''"

text \<open>
  \<^verbatim>\<open>
  const value = this.settings?.[setting]
  if (value === undefined) {
    if (defaultValue) { return defaultValue }
    throw `UI setting "${setting}" does not exist and no default was provided.`
  }
  return value
  \<close>
  The part of \<open>get\<close> after \<open>await this.load()\<close>.
\<close>

definition get_body :: "Settings option \<Rightarrow> string \<Rightarrow> jsval \<Rightarrow> js_error + jsval" where
  "get_body ss setting defaultValue =
     (let value = lookup ss setting in
      if value = JUndefined then
        (if truthy defaultValue then Inr defaultValue
         else Inl (Thrown (missing_setting setting)))
      else Inr value)"

text \<open>How the promise of the async function \<open>get\<close> settles: a throw rejects it, a
  return fulfils it.\<close>

fun get_outcome :: "js_error + jsval \<Rightarrow> outcome" where
  "get_outcome (Inl e) = Rejected e"
| "get_outcome (Inr v) = Get_fulfilled v"

definition settle_get :: "cid \<Rightarrow> js_error + jsval \<Rightarrow> runtime \<Rightarrow> runtime" where
  "settle_get c r st = st\<lparr>results := (results st)(c \<mapsto> get_outcome r)\<rparr>"

text \<open>\<open>get(setting, defaultValue)\<close> up to its \<open>await\<close>; an omitted default is
  \<open>JUndefined\<close>.\<close>

definition get :: "cid \<Rightarrow> string \<Rightarrow> jsval \<Rightarrow> runtime \<Rightarrow> runtime" where
  "get c setting defaultValue st = load (Get c setting defaultValue) st"

subsection \<open>Promise jobs and events\<close>

text \<open>
  A promise job resumes the code that waited. The \<open>load\<close> that created the promise
  resumes at line 41: it stores the value in the \<open>settings\<close> slot and returns it. A
  \<open>load\<close> that returned the promise just returns the value. A \<open>get\<close> resumes
  after its \<open>await\<close>, reads the \<open>settings\<close> slot as it is then, and settles.
  The queue is first in, first out, as the engine's is. (The engine takes extra turns to
  let the result of an async function adopt a promise it returned; they delay the
  \<open>Follow\<close> jobs and leave their order, behind the creator's job, as it is here.)
\<close>

fun run_task :: "task \<Rightarrow> runtime \<Rightarrow> runtime" where
  "run_task (React (Await k) v) st = return_load k v (st\<lparr>settings := Some v\<rparr>)"
| "run_task (React (Follow k) v) st = return_load k v st"
| "run_task (Get_resume c setting dflt) st = settle_get c (get_body (settings st) setting dflt) st"

definition tick :: "runtime \<Rightarrow> runtime" where
  "tick st =
     (case microtasks st of
        [] \<Rightarrow> st
      | t # ts \<Rightarrow> run_task t (st\<lparr>microtasks := ts\<rparr>))"

text \<open>
  What the environment does: the application calls \<open>load()\<close> or
  \<open>get(setting, defaultValue)\<close>, request \<open>i\<close> is answered or fails, the engine
  runs the job at the head of the queue. An event that cannot happen (a request that is
  not outstanding settles, the queue is empty) leaves the state as it is. A run is a list
  of events, executed from the left.
\<close>

datatype event =
    Call_load cid
  | Call_get cid string jsval
  | Fetch_ok nat AxiosResponse
  | Fetch_fail nat AxiosError
  | Tick

fun step :: "event \<Rightarrow> runtime \<Rightarrow> runtime" where
  "step (Call_load c) st = load (App c) st"
| "step (Call_get c setting dflt) st = get c setting dflt st"
| "step (Fetch_ok i r) st = fetch_fulfilled i r st"
| "step (Fetch_fail i e) st = fetch_rejected i e st"
| "step Tick st = tick st"

fun exec :: "event list \<Rightarrow> runtime \<Rightarrow> runtime" where
  "exec [] st = st"
| "exec (e # es) st = exec es (step e st)"

subsection \<open>The shapes of the reachable states\<close>

text \<open>
  Three families of states, written out field by field. \<open>idle\<close>: nothing was called.
  \<open>waiting\<close>: the one request was issued and its promise is pending, with the
  reactions \<open>rs\<close> registered on it; \<open>out\<close> is \<open>[0]\<close> while the request is in
  flight and \<open>[]\<close> once it settled without \<open>resolve\<close> being called.
  \<open>resolved\<close>: the promise is fulfilled with \<open>v\<close>.
\<close>

definition the_request :: "string \<Rightarrow> request" where
  "the_request b = \<lparr>path = ''/ui-settings'', baseURL = b, resolves = 0\<rparr>"

definition connection_toast :: toast where
  "connection_toast =
     \<lparr>message = ''ConnectionToastMessage'', severity = ''error'', timeout = JBool False\<rparr>"

definition idle :: "string \<Rightarrow> runtime" where
  "idle b =
     \<lparr>settings = None, promise = None, baseUrl = b, store = [], requests = [],
      outstanding = [], microtasks = [], toasts = [], unhandled = [], results = Map.empty\<rparr>"

definition waiting ::
  "string \<Rightarrow> reaction list \<Rightarrow> nat list \<Rightarrow> toast list \<Rightarrow> js_error list \<Rightarrow> runtime" where
  "waiting b rs out ts us =
     \<lparr>settings = None, promise = Some 0, baseUrl = b,
      store = [\<lparr>pstate = None, reactions = rs\<rparr>], requests = [the_request b],
      outstanding = out, microtasks = [], toasts = ts, unhandled = us, results = Map.empty\<rparr>"

definition resolved ::
  "string \<Rightarrow> Settings \<Rightarrow> Settings option \<Rightarrow> task list \<Rightarrow> (cid \<rightharpoonup> outcome) \<Rightarrow> runtime" where
  "resolved b v ss mts res =
     \<lparr>settings = ss, promise = Some 0, baseUrl = b,
      store = [\<lparr>pstate = Some v, reactions = []\<rparr>], requests = [the_request b],
      outstanding = [], microtasks = mts, toasts = [], unhandled = [], results = res\<rparr>"

text \<open>A queued job is consistent with the fulfilled value \<open>v\<close>, and so is a settled
  call: a \<open>load\<close> returned \<open>v\<close>, a \<open>get\<close> settled as its body does on \<open>v\<close>.\<close>

fun task_ok :: "Settings \<Rightarrow> task \<Rightarrow> bool" where
  "task_ok v (React r w) = (w = v)"
| "task_ok v (Get_resume c setting dflt) = True"

fun outcome_ok :: "Settings \<Rightarrow> outcome \<Rightarrow> bool" where
  "outcome_ok v (Load_fulfilled w) = (w = v)"
| "outcome_ok v (Get_fulfilled x) = (\<exists>setting dflt. get_body (Some v) setting dflt = Inr x)"
| "outcome_ok v (Rejected e) = (\<exists>setting dflt. get_body (Some v) setting dflt = Inl e)"

definition results_ok :: "Settings \<Rightarrow> (cid \<rightharpoonup> outcome) \<Rightarrow> bool" where
  "results_ok v res = (\<forall>c out. res c = Some out \<longrightarrow> outcome_ok v out)"

text \<open>The first reaction on the promise is the \<open>await\<close> of the \<open>load\<close> that created
  it; every later one is a \<open>load\<close> that returned the promise.\<close>

definition creator_first :: "reaction list \<Rightarrow> bool" where
  "creator_first rs = (\<exists>k ks. rs = Await k # map Follow ks)"

text \<open>
  The phases of a run. \<open>in_flight\<close>: the request is out. \<open>hung\<close>: the request
  settled and \<open>resolve\<close> was not called. \<open>resolving\<close>: the promise is fulfilled and
  the job of the \<open>load\<close> that created it heads the queue. \<open>loaded\<close>: that job
  ran and the settings are cached.
\<close>

definition in_flight :: "string \<Rightarrow> runtime \<Rightarrow> bool" where
  "in_flight b st = (\<exists>rs. st = waiting b rs [0] [] [] \<and> creator_first rs)"

definition hung :: "string \<Rightarrow> toast list \<Rightarrow> js_error list \<Rightarrow> runtime \<Rightarrow> bool" where
  "hung b ts us st = (\<exists>rs. st = waiting b rs [] ts us \<and> creator_first rs)"

definition resolving :: "string \<Rightarrow> Settings \<Rightarrow> runtime \<Rightarrow> bool" where
  "resolving b v st =
     (\<exists>rs. st = resolved b v None (map (\<lambda>r. React r v) rs) Map.empty \<and> creator_first rs)"

definition loaded :: "string \<Rightarrow> Settings \<Rightarrow> runtime \<Rightarrow> bool" where
  "loaded b v st =
     (\<exists>mts res. st = resolved b v (Some v) mts res \<and> list_all (task_ok v) mts \<and> results_ok v res)"

definition inv :: "string \<Rightarrow> runtime \<Rightarrow> bool" where
  "inv b st \<longleftrightarrow>
     st = idle b \<or> in_flight b st \<or> (\<exists>ts us. hung b ts us st)
     \<or> (\<exists>v. resolving b v st) \<or> (\<exists>v. loaded b v st)"

text \<open>The base URL the class computes when it is initialised.\<close>

definition base :: "string \<Rightarrow> string \<Rightarrow> string" where
  "base mode origin = baseUrl (init mode origin)"

subsection \<open>Following one call through a run\<close>

text \<open>
  The name of the call a reaction, a job or an event belongs to. A name stands for one
  call: a run in which \<open>c\<close> names a \<open>get\<close> has no other call named \<open>c\<close>.
\<close>

fun caller_id :: "caller \<Rightarrow> cid" where
  "caller_id (App c) = c"
| "caller_id (Get c setting dflt) = c"

fun reaction_id :: "reaction \<Rightarrow> cid" where
  "reaction_id (Await k) = caller_id k"
| "reaction_id (Follow k) = caller_id k"

fun task_id :: "task \<Rightarrow> cid" where
  "task_id (React r v) = reaction_id r"
| "task_id (Get_resume c setting dflt) = c"

fun call_id :: "event \<Rightarrow> cid option" where
  "call_id (Call_load c) = Some c"
| "call_id (Call_get c setting dflt) = Some c"
| "call_id (Fetch_ok i r) = None"
| "call_id (Fetch_fail i e) = None"
| "call_id Tick = None"

definition named_reactions :: "cid \<Rightarrow> runtime \<Rightarrow> reaction list" where
  "named_reactions c st = filter (\<lambda>r. reaction_id r = c) (concat (map reactions (store st)))"

definition named_tasks :: "cid \<Rightarrow> runtime \<Rightarrow> task list" where
  "named_tasks c st = filter (\<lambda>t. task_id t = c) (microtasks st)"

text \<open>The reactions and the jobs that stand for the call \<open>get(setting, dflt)\<close> named
  \<open>c\<close>: its \<open>load\<close> waiting on the promise, and its own resumption.\<close>

fun get_reaction :: "cid \<Rightarrow> string \<Rightarrow> jsval \<Rightarrow> reaction \<Rightarrow> bool" where
  "get_reaction c setting dflt (Await k) = (k = Get c setting dflt)"
| "get_reaction c setting dflt (Follow k) = (k = Get c setting dflt)"

fun get_job :: "cid \<Rightarrow> string \<Rightarrow> jsval \<Rightarrow> task \<Rightarrow> bool" where
  "get_job c setting dflt (React r v) = get_reaction c setting dflt r"
| "get_job c setting dflt (Get_resume c' setting' dflt') =
     (c' = c \<and> setting' = setting \<and> dflt' = dflt)"

text \<open>
  \<open>unused\<close>: no call named \<open>c\<close> was made. \<open>awaiting\<close>: the call is under way, it
  has not settled and exactly one reaction or one job stands for it. \<open>settled\<close>: it
  settled as the body of \<open>get\<close> does on the cached settings, and nothing stands for it
  any more.
\<close>

definition unused :: "cid \<Rightarrow> runtime \<Rightarrow> bool" where
  "unused c st \<longleftrightarrow> results st c = None \<and> named_reactions c st = [] \<and> named_tasks c st = []"

definition awaiting :: "cid \<Rightarrow> string \<Rightarrow> jsval \<Rightarrow> runtime \<Rightarrow> bool" where
  "awaiting c setting dflt st \<longleftrightarrow>
     results st c = None \<and>
     ((\<exists>r. named_reactions c st = [r] \<and> get_reaction c setting dflt r \<and> named_tasks c st = [])
      \<or> (\<exists>t. named_tasks c st = [t] \<and> get_job c setting dflt t \<and> named_reactions c st = []))"

definition settled :: "cid \<Rightarrow> string \<Rightarrow> jsval \<Rightarrow> runtime \<Rightarrow> bool" where
  "settled c setting dflt st \<longleftrightarrow>
     results st c = Some (get_outcome (get_body (settings st) setting dflt))
     \<and> settings st \<noteq> None \<and> named_reactions c st = [] \<and> named_tasks c st = []"

definition tracked :: "cid \<Rightarrow> string \<Rightarrow> jsval \<Rightarrow> runtime \<Rightarrow> bool" where
  "tracked c setting dflt st \<longleftrightarrow> awaiting c setting dflt st \<or> settled c setting dflt st"

text \<open>The promise jobs a queued job still stands for: a reaction may queue the
  resumption of a \<open>get\<close>.\<close>

fun cost :: "task \<Rightarrow> nat" where
  "cost (React r v) = 2"
| "cost (Get_resume c setting dflt) = 1"

section \<open>How each operation acts on each shape\<close>

lemmas shape_defs = idle_def waiting_def resolved_def the_request_def
lemmas op_defs = load_def subscribe_def get_def fetch_fulfilled_def fetch_rejected_def
  then_map_resolve_def resolve_def tick_def settle_get_def catch_handler_def showToast_def

lemma init_idle: "init mode origin = idle (base mode origin)"
  by (simp add: base_def init_def idle_def)

lemma load_idle: "load k (idle b) = waiting b [Await k] [0] [] []"
  by (simp add: shape_defs op_defs)

lemma load_waiting: "load k (waiting b rs out ts us) = waiting b (rs @ [Follow k]) out ts us"
  by (simp add: shape_defs op_defs)

lemma load_resolved_None:
  "load k (resolved b v None mts res) = resolved b v None (mts @ [React (Follow k) v]) res"
  by (simp add: shape_defs op_defs)

lemma load_resolved_Some:
  "load k (resolved b v (Some s) mts res) = return_load k s (resolved b v (Some s) mts res)"
  by (simp add: shape_defs op_defs)

lemma return_load_resolved_App:
  "return_load (App c) s (resolved b v ss mts res) = resolved b v ss mts (res(c \<mapsto> Load_fulfilled s))"
  by (simp add: shape_defs)

lemma return_load_resolved_Get:
  "return_load (Get c setting d) s (resolved b v ss mts res) = resolved b v ss (mts @ [Get_resume c setting d]) res"
  by (simp add: shape_defs)

lemma fetch_fulfilled_idle: "fetch_fulfilled i r (idle b) = idle b"
  by (simp add: shape_defs op_defs)

lemma fetch_rejected_idle: "fetch_rejected i e (idle b) = idle b"
  by (simp add: shape_defs op_defs)

lemma fetch_fulfilled_in_flight:
  "fetch_fulfilled i r (waiting b rs [0] [] []) =
     (if i = 0 then
        (case mapSettingsResponse (Some r) of
           Inl e \<Rightarrow> waiting b rs [] [] [e]
         | Inr v \<Rightarrow> resolved b v None (map (\<lambda>r. React r v) rs) Map.empty)
      else waiting b rs [0] [] [])"
  by (simp add: shape_defs op_defs split: sum.splits)

lemma fetch_fulfilled_settled: "fetch_fulfilled i r (waiting b rs [] ts us) = waiting b rs [] ts us"
  by (simp add: shape_defs op_defs)

lemma fetch_rejected_in_flight:
  "fetch_rejected i e (waiting b rs [0] [] []) =
     (if i = 0 then
        waiting b rs [] (if truthy (status e) then [] else [connection_toast]) [TypeError]
      else waiting b rs [0] [] [])"
  by (simp add: shape_defs op_defs connection_toast_def mapSettingsResponse_def)

lemma fetch_rejected_settled: "fetch_rejected i e (waiting b rs [] ts us) = waiting b rs [] ts us"
  by (simp add: shape_defs op_defs)

lemma fetch_fulfilled_resolved: "fetch_fulfilled i r (resolved b v ss mts res) = resolved b v ss mts res"
  by (simp add: shape_defs op_defs)

lemma fetch_rejected_resolved: "fetch_rejected i e (resolved b v ss mts res) = resolved b v ss mts res"
  by (simp add: shape_defs op_defs)

lemma tick_idle: "tick (idle b) = idle b"
  by (simp add: shape_defs op_defs)

lemma tick_waiting: "tick (waiting b rs out ts us) = waiting b rs out ts us"
  by (simp add: shape_defs op_defs)

lemma tick_resolved_Nil: "tick (resolved b v ss [] res) = resolved b v ss [] res"
  by (simp add: shape_defs op_defs)

lemma tick_resolved_Cons:
  "tick (resolved b v ss (t # mts) res) = run_task t (resolved b v ss mts res)"
  by (simp add: shape_defs op_defs)

lemma run_task_resolved_Follow:
  "run_task (React (Follow k) w) (resolved b v ss mts res) = return_load k w (resolved b v ss mts res)"
  by simp

lemma run_task_resolved_Await:
  "run_task (React (Await k) w) (resolved b v ss mts res) = return_load k w (resolved b v (Some w) mts res)"
  by (simp add: shape_defs)

lemma run_task_resolved_Get:
  "run_task (Get_resume c setting d) (resolved b v ss mts res) =
     resolved b v ss mts (res(c \<mapsto> get_outcome (get_body ss setting d)))"
  by (simp add: shape_defs op_defs)

section \<open>The phases are closed under the events\<close>

lemma creator_first_single: "creator_first [Await k]"
  unfolding creator_first_def by (rule exI [of _ k], rule exI [of _ "[]"]) simp

lemma creator_first_snoc:
  assumes "creator_first rs"
  shows "creator_first (rs @ [Follow k])"
proof -
  from assms obtain k0 ks where rs: "rs = Await k0 # map Follow ks"
    unfolding creator_first_def by blast
  have "rs @ [Follow k] = Await k0 # map Follow (ks @ [k])"
    by (simp add: rs)
  then show ?thesis
    unfolding creator_first_def by blast
qed

lemma results_ok_empty: "results_ok v Map.empty"
  by (simp add: results_ok_def)

lemma results_ok_upd: "results_ok v res \<Longrightarrow> outcome_ok v out \<Longrightarrow> results_ok v (res(c \<mapsto> out))"
  by (simp add: results_ok_def)

lemma outcome_ok_get: "outcome_ok v (get_outcome (get_body (Some v) setting dflt))"
  by (cases "get_body (Some v) setting dflt") auto

lemma loadedI:
  "list_all (task_ok v) mts \<Longrightarrow> results_ok v res \<Longrightarrow> loaded b v (resolved b v (Some v) mts res)"
  unfolding loaded_def by blast

lemma loaded_return_load:
  "list_all (task_ok v) mts \<Longrightarrow> results_ok v res \<Longrightarrow>
   loaded b v (return_load k v (resolved b v (Some v) mts res))"
  by (cases k)
     (simp_all add: return_load_resolved_App return_load_resolved_Get loadedI
        results_ok_upd del: return_load.simps)

lemma loaded_run_task:
  assumes "task_ok v t" "list_all (task_ok v) mts" "results_ok v res"
  shows "loaded b v (run_task t (resolved b v (Some v) mts res))"
proof (cases t)
  case (React r w)
  with assms show ?thesis
    by (cases r) (simp_all add: run_task_resolved_Await run_task_resolved_Follow loaded_return_load
        del: run_task.simps return_load.simps)
next
  case (Get_resume c setting dflt)
  with assms show ?thesis
    by (simp add: run_task_resolved_Get loadedI results_ok_upd outcome_ok_get
        del: run_task.simps)
qed

lemma loaded_step:
  assumes "loaded b v st"
  shows "loaded b v (step e st)"
proof -
  from assms obtain mts res where st: "st = resolved b v (Some v) mts res"
    and ok: "list_all (task_ok v) mts" "results_ok v res"
    unfolding loaded_def by blast
  show ?thesis
  proof (cases e)
    case Tick
    show ?thesis
    proof (cases mts)
      case Nil
      with Tick ok show ?thesis
        by (simp add: st tick_resolved_Nil loadedI)
    next
      case (Cons t ts)
      with Tick ok show ?thesis
        by (simp add: st tick_resolved_Cons loaded_run_task del: run_task.simps)
    qed
  qed (use ok in \<open>simp_all add: st get_def load_resolved_Some loaded_return_load
          fetch_fulfilled_resolved fetch_rejected_resolved loadedI del: return_load.simps\<close>)
qed

lemma loaded_exec: "loaded b v st \<Longrightarrow> loaded b v (exec es st)"
  by (induction es arbitrary: st) (simp_all add: loaded_step)

lemma hung_step:
  assumes "hung b ts us st"
  shows "hung b ts us (step e st)"
proof -
  from assms obtain rs where st: "st = waiting b rs [] ts us" and rs: "creator_first rs"
    unfolding hung_def by blast
  have "hung b ts us (waiting b rs' [] ts us)" if "creator_first rs'" for rs'
    using that unfolding hung_def by blast
  with rs show ?thesis
    by (cases e)
       (simp_all add: st get_def load_waiting fetch_fulfilled_settled fetch_rejected_settled
          tick_waiting creator_first_snoc)
qed

lemma hung_exec: "hung b ts us st \<Longrightarrow> hung b ts us (exec es st)"
  by (induction es arbitrary: st) (simp_all add: hung_step)

lemma resolving_step:
  assumes "resolving b v st"
  shows "resolving b v (step e st) \<or> loaded b v (step e st)"
proof -
  from assms obtain rs where st: "st = resolved b v None (map (\<lambda>r. React r v) rs) Map.empty"
    and cf: "creator_first rs"
    unfolding resolving_def by blast
  from cf obtain k ks where rs: "rs = Await k # map Follow ks"
    unfolding creator_first_def by blast
  have snoc: "map (\<lambda>r. React r v) rs @ [React (Follow c) v] = map (\<lambda>r. React r v) (rs @ [Follow c])"
    for c by simp
  have call: "resolving b v (load c st)" for c
    unfolding st load_resolved_None snoc resolving_def
    using creator_first_snoc [OF cf] by blast
  have rest: "list_all (task_ok v) (map (\<lambda>r. React r v) (map Follow ks))"
    by (induction ks) simp_all
  have run: "loaded b v (tick st)"
    unfolding st rs
    by (simp add: tick_resolved_Cons run_task_resolved_Await del: run_task.simps return_load.simps)
       (rule loaded_return_load [OF _ results_ok_empty], use rest in simp)
  have same: "resolving b v st"
    by (rule assms)
  show ?thesis
    by (cases e)
       (simp_all add: get_def call run, simp_all add: st fetch_fulfilled_resolved
          fetch_rejected_resolved same [unfolded st])
qed

lemma in_flight_step:
  assumes "in_flight b st"
  shows "in_flight b (step e st) \<or> (\<exists>ts us. hung b ts us (step e st))
         \<or> (\<exists>v. resolving b v (step e st))"
proof -
  from assms obtain rs where st: "st = waiting b rs [0] [] []" and cf: "creator_first rs"
    unfolding in_flight_def by blast
  have fl: "in_flight b (waiting b rs' [0] [] [])" if "creator_first rs'" for rs'
    using that unfolding in_flight_def by blast
  have hg: "hung b ts us (waiting b rs [] ts us)" for ts us
    using cf unfolding hung_def by blast
  have rv: "resolving b v (resolved b v None (map (\<lambda>r. React r v) rs) Map.empty)" for v
    using cf unfolding resolving_def by blast
  show ?thesis
  proof (cases e)
    case (Fetch_ok i r)
    show ?thesis
    proof (cases "mapSettingsResponse (Some r)")
      case (Inl err)
      have "step e st = (if i = 0 then waiting b rs [] [] [err] else waiting b rs [0] [] [])"
        by (simp add: Fetch_ok st fetch_fulfilled_in_flight Inl)
      with fl [OF cf] hg [of "[]" "[err]"] show ?thesis
        by (cases "i = 0") auto
    next
      case (Inr v)
      have "step e st =
              (if i = 0 then resolved b v None (map (\<lambda>r. React r v) rs) Map.empty
               else waiting b rs [0] [] [])"
        by (simp add: Fetch_ok st fetch_fulfilled_in_flight Inr)
      with fl [OF cf] rv [of v] show ?thesis
        by (cases "i = 0") auto
    qed
  next
    case (Fetch_fail i err)
    have "step e st =
            (if i = 0 then
               waiting b rs [] (if truthy (status err) then [] else [connection_toast]) [TypeError]
             else waiting b rs [0] [] [])"
      by (simp add: Fetch_fail st fetch_rejected_in_flight)
    with fl [OF cf] hg show ?thesis
      by (cases "i = 0") auto
  qed (use cf fl in \<open>simp_all add: st get_def load_waiting tick_waiting creator_first_snoc\<close>)
qed

lemma idle_step: "step e (idle b) = idle b \<or> in_flight b (step e (idle b))"
proof -
  have "in_flight b (waiting b [Await k] [0] [] [])" for k
    unfolding in_flight_def using creator_first_single by blast
  then show ?thesis
    by (cases e)
       (simp_all add: get_def load_idle fetch_fulfilled_idle fetch_rejected_idle tick_idle)
qed

lemma inv_step:
  assumes "inv b st"
  shows "inv b (step e st)"
proof -
  from assms consider "st = idle b" | "in_flight b st" | ts us where "hung b ts us st"
    | v where "resolving b v st" | v where "loaded b v st"
    unfolding inv_def by blast
  then show ?thesis
  proof cases
    case 1
    with idle_step [of e b] show ?thesis unfolding inv_def by auto
  next
    case 2
    from in_flight_step [OF this, of e] show ?thesis unfolding inv_def by blast
  next
    case 3
    from hung_step [OF this, of e] show ?thesis unfolding inv_def by blast
  next
    case 4
    from resolving_step [OF this, of e] show ?thesis unfolding inv_def by blast
  next
    case 5
    from loaded_step [OF this, of e] show ?thesis unfolding inv_def by blast
  qed
qed

lemma inv_exec: "inv b st \<Longrightarrow> inv b (exec es st)"
  by (induction es arbitrary: st) (simp_all add: inv_step)

lemma exec_append: "exec (es @ es') st = exec es' (exec es st)"
  by (induction es arbitrary: st) simp_all

lemma inv_reachable: "inv (base mode origin) (exec es (init mode origin))"
proof -
  have "inv (base mode origin) (init mode origin)"
    by (simp add: init_idle inv_def)
  then show ?thesis
    by (rule inv_exec)
qed

section \<open>One call followed through a run\<close>

lemma named_idle [simp]:
  "named_reactions c (idle b) = []" "named_tasks c (idle b) = []" "results (idle b) c = None"
  "settings (idle b) = None"
  by (simp_all add: named_reactions_def named_tasks_def idle_def)

lemma named_waiting [simp]:
  "named_reactions c (waiting b rs out ts us) = filter (\<lambda>r. reaction_id r = c) rs"
  "named_tasks c (waiting b rs out ts us) = []" "results (waiting b rs out ts us) c = None"
  "settings (waiting b rs out ts us) = None"
  by (simp_all add: named_reactions_def named_tasks_def waiting_def)

lemma named_resolved [simp]:
  "named_reactions c (resolved b v ss mts res) = []"
  "named_tasks c (resolved b v ss mts res) = filter (\<lambda>t. task_id t = c) mts"
  "results (resolved b v ss mts res) = res"
  "settings (resolved b v ss mts res) = ss"
  "microtasks (resolved b v ss mts res) = mts"
  by (simp_all add: named_reactions_def named_tasks_def resolved_def)

lemma return_load_resolved:
  "return_load k w (resolved b v ss mts res) =
     resolved b v ss
       (mts @ (case k of App c \<Rightarrow> [] | Get c setting dflt \<Rightarrow> [Get_resume c setting dflt]))
       (case k of App c \<Rightarrow> res(c \<mapsto> Load_fulfilled w) | Get c setting dflt \<Rightarrow> res)"
  by (cases k) (simp_all add: resolved_def)

lemma filter_react:
  "filter (\<lambda>t. task_id t = c) (map (\<lambda>r. React r v) rs) =
     map (\<lambda>r. React r v) (filter (\<lambda>r. reaction_id r = c) rs)"
  by (induction rs) simp_all

text \<open>The phases, as the invariant lists them.\<close>

lemma inv_cases [consumes 1, case_names idle in_flight hung resolving loaded]:
  assumes "inv b st"
  obtains "st = idle b"
    | rs where "st = waiting b rs [0] [] []" "creator_first rs"
    | rs ts us where "st = waiting b rs [] ts us" "creator_first rs"
    | v rs where "st = resolved b v None (map (\<lambda>r. React r v) rs) Map.empty" "creator_first rs"
    | v mts res where "st = resolved b v (Some v) mts res" "list_all (task_ok v) mts"
        "results_ok v res"
  using assms unfolding inv_def in_flight_def hung_def resolving_def loaded_def by blast

lemmas track_defs = tracked_def awaiting_def settled_def unused_def

lemma unused_step:
  assumes "inv b st" and "unused c st" and "call_id e \<noteq> Some c"
  shows "unused c (step e st)"
  using assms(1)
proof (cases rule: inv_cases)
  case idle
  with assms(2,3) show ?thesis
    by (cases e)
       (auto simp add: track_defs get_def load_idle fetch_fulfilled_idle fetch_rejected_idle tick_idle)
next
  case (in_flight rs)
  with assms(2,3) show ?thesis
    by (cases e)
       (auto simp add: track_defs get_def load_waiting fetch_fulfilled_in_flight
          fetch_rejected_in_flight tick_waiting filter_react split: sum.splits)
next
  case (hung rs ts us)
  with assms(2,3) show ?thesis
    by (cases e)
       (auto simp add: track_defs get_def load_waiting fetch_fulfilled_settled
          fetch_rejected_settled tick_waiting)
next
  case (resolving v rs)
  from resolving(2) obtain k0 ks where rs: "rs = Await k0 # map Follow ks"
    unfolding creator_first_def by blast
  from resolving(1) assms(2,3) show ?thesis
    by (cases e)
       (auto simp add: track_defs rs get_def load_resolved_None fetch_fulfilled_resolved
          fetch_rejected_resolved tick_resolved_Cons run_task_resolved_Await
          return_load_resolved split: caller.splits
          simp del: run_task.simps return_load.simps)
next
  case (loaded v mts res)
  show ?thesis
  proof (cases e)
    case Tick
    show ?thesis
    proof (cases mts)
      case Nil
      with Tick loaded(1) assms(2) show ?thesis
        by (simp add: track_defs tick_resolved_Nil)
    next
      case (Cons t ts)
      show ?thesis
      proof (cases t)
        case (React r w)
        with Cons Tick loaded(1) assms(2) show ?thesis
          by (cases r)
             (auto simp add: track_defs tick_resolved_Cons run_task_resolved_Await
                run_task_resolved_Follow return_load_resolved
                split: caller.splits if_splits simp del: run_task.simps return_load.simps)
      next
        case (Get_resume c' k' d')
        with Cons Tick loaded(1) assms(2) show ?thesis
          by (auto simp add: track_defs tick_resolved_Cons run_task_resolved_Get
                split: if_splits simp del: run_task.simps)
      qed
    qed
  qed (use loaded(1) assms(2,3) in \<open>auto simp add: track_defs get_def load_resolved_Some
         return_load_resolved fetch_fulfilled_resolved fetch_rejected_resolved
         simp del: return_load.simps\<close>)
qed

lemma unused_exec:
  assumes "inv b st" and "unused c st" and "Some c \<notin> call_id ` set es"
  shows "unused c (exec es st)"
  using assms
  by (induction es arbitrary: st) (auto simp add: inv_step unused_step)

lemma unused_init: "unused c (init mode origin)"
  by (simp add: init_idle unused_def)

lemma call_get_awaiting:
  assumes "inv b st" and "unused c st"
  shows "awaiting c k d (step (Call_get c k d) st)"
  using assms(1)
proof (cases rule: inv_cases)
  case (resolving v rs)
  with assms(2) show ?thesis
    by (auto simp add: track_defs get_def load_resolved_None)
next
  case (loaded v mts res)
  with assms(2) show ?thesis
    by (auto simp add: track_defs get_def load_resolved_Some return_load_resolved
        simp del: return_load.simps)
qed (use assms(2) in \<open>auto simp add: track_defs get_def load_idle load_waiting\<close>)

lemma tracked_step:
  assumes "inv b st" and "tracked c k d st" and "call_id e \<noteq> Some c"
  shows "tracked c k d (step e st)"
  using assms(1)
proof (cases rule: inv_cases)
  case idle
  with assms(2) show ?thesis
    by (simp add: track_defs)
next
  case (in_flight rs)
  with assms(2,3) show ?thesis
    by (cases e)
       (auto simp add: track_defs get_def load_waiting fetch_fulfilled_in_flight
          fetch_rejected_in_flight tick_waiting filter_react split: sum.splits)
next
  case (hung rs ts us)
  with assms(2,3) show ?thesis
    by (cases e)
       (auto simp add: track_defs get_def load_waiting fetch_fulfilled_settled
          fetch_rejected_settled tick_waiting)
next
  case (resolving v rs)
  from resolving(2) obtain k0 ks where rs: "rs = Await k0 # map Follow ks"
    unfolding creator_first_def by blast
  from resolving(1) assms(2,3) show ?thesis
    by (cases e)
       (auto simp add: track_defs rs get_def load_resolved_None fetch_fulfilled_resolved
          fetch_rejected_resolved tick_resolved_Cons run_task_resolved_Await
          return_load_resolved split: caller.splits if_splits
          simp del: run_task.simps return_load.simps)
next
  case (loaded v mts res)
  show ?thesis
  proof (cases e)
    case Tick
    show ?thesis
    proof (cases mts)
      case Nil
      with Tick loaded(1) assms(2) show ?thesis
        by (simp add: track_defs tick_resolved_Nil)
    next
      case (Cons t ts)
      show ?thesis
      proof (cases t)
        case (React r w)
        with Cons Tick loaded(1,2) assms(2) show ?thesis
          by (cases r)
             (auto simp add: track_defs tick_resolved_Cons run_task_resolved_Await
                run_task_resolved_Follow return_load_resolved
                split: caller.splits if_splits simp del: run_task.simps return_load.simps)
      next
        case (Get_resume c' k' d')
        with Cons Tick loaded(1,2) assms(2) show ?thesis
          by (auto simp add: track_defs tick_resolved_Cons run_task_resolved_Get
                split: if_splits simp del: run_task.simps)
      qed
    qed
  qed (use loaded(1) assms(2,3) in \<open>auto simp add: track_defs get_def load_resolved_Some
         return_load_resolved fetch_fulfilled_resolved fetch_rejected_resolved
         simp del: return_load.simps\<close>)
qed

lemma tracked_exec:
  assumes "inv b st" and "tracked c k d st" and "Some c \<notin> call_id ` set es"
  shows "tracked c k d (exec es st)"
  using assms
  by (induction es arbitrary: st) (auto simp add: inv_step tracked_step)

section \<open>What the invariant says about the fields\<close>

lemma inv_requests:
  assumes "inv b st"
  shows "baseUrl st = b"
    and "requests st = (if promise st = None then [] else [the_request b])"
  using assms
  unfolding inv_def in_flight_def hung_def resolving_def loaded_def
  by (auto simp add: idle_def waiting_def resolved_def)

lemma loaded_fields:
  assumes "loaded b v st"
  shows "settings st = Some v" and "requests st = [the_request b]" and "toasts st = []"
    and "promise st = Some 0" and "results_ok v (results st)"
  using assms unfolding loaded_def by (auto simp add: resolved_def)

lemma hung_fields:
  assumes "hung b ts us st"
  shows "settings st = None" and "promise st = Some 0" and "map pstate (store st) = [None]"
    and "results st = Map.empty" and "microtasks st = []" and "toasts st = ts"
    and "unhandled st = us"
  using assms unfolding hung_def by (auto simp add: waiting_def)

lemma inv_settings_loaded:
  assumes "inv b st" and "settings st = Some v"
  shows "loaded b v st"
proof -
  from assms(1) consider "st = idle b" | "in_flight b st" | ts us where "hung b ts us st"
    | w where "resolving b w st" | w where "loaded b w st"
    unfolding inv_def by blast
  then show ?thesis
  proof cases
    case 5
    with assms(2) loaded_fields(1) [OF 5] show ?thesis by simp
  qed (use assms(2) in \<open>auto simp add: idle_def in_flight_def hung_def resolving_def
         waiting_def resolved_def\<close>)
qed

lemma inv_outstanding_in_flight:
  assumes "inv b st" and "i \<in> set (outstanding st)"
  shows "in_flight b st" and "i = 0"
proof -
  from assms(1) consider "st = idle b" | "in_flight b st" | ts us where "hung b ts us st"
    | w where "resolving b w st" | w where "loaded b w st"
    unfolding inv_def by blast
  then have "in_flight b st \<and> i = 0"
  proof cases
    case 2
    with assms(2) show ?thesis by (auto simp add: in_flight_def waiting_def)
  qed (use assms(2) in \<open>auto simp add: idle_def hung_def resolving_def loaded_def
         waiting_def resolved_def\<close>)
  then show "in_flight b st" and "i = 0" by simp_all
qed

lemma in_flight_rejected:
  assumes "in_flight b st"
  shows "hung b (if truthy (status e) then [] else [connection_toast]) [TypeError]
           (step (Fetch_fail 0 e) st)"
proof -
  from assms obtain rs where st: "st = waiting b rs [0] [] []" and cf: "creator_first rs"
    unfolding in_flight_def by blast
  show ?thesis
    unfolding hung_def using cf by (auto simp add: st fetch_rejected_in_flight)
qed

lemmas run_defs = init_def load_def get_def subscribe_def fetch_fulfilled_def fetch_rejected_def
  then_map_resolve_def mapSettingsResponse_def resolve_def tick_def settle_get_def get_body_def
  lookup_def object_prototype_def catch_handler_def showToast_def missing_setting_def


lemma inv_rejections:
  assumes "inv b st" and "results st a = Some (Rejected err)"
  shows "\<exists>setting. err = Thrown (missing_setting setting)"
proof -
  from assms(1) consider "st = idle b" | "in_flight b st" | ts us where "hung b ts us st"
    | v where "resolving b v st" | v where "loaded b v st"
    unfolding inv_def by blast
  then show ?thesis
  proof cases
    case 5
    from loaded_fields(5) [OF 5] assms(2) have "outcome_ok v (Rejected err)"
      unfolding results_ok_def by blast
    then obtain setting dflt where "get_body (Some v) setting dflt = Inl err"
      by auto
    then have "err = Thrown (missing_setting setting)"
      by (auto simp add: get_body_def Let_def split: if_splits)
    then show ?thesis by blast
  qed (use assms(2) in \<open>auto simp add: idle_def in_flight_def hung_def resolving_def
         waiting_def resolved_def\<close>)
qed

section \<open>Runs of calls and of promise jobs\<close>



lemma exec_replicate_Suc: "exec (replicate (Suc n) e) st = step e (exec (replicate n e) st)"
proof -
  have "replicate (Suc n) e = replicate n e @ [e]"
    by (simp add: replicate_append_same)
  then show ?thesis
    by (simp only: exec_append) simp
qed

lemma run_task_keeps_position:
  assumes "task_ok v t"
  shows "\<exists>post' res'. run_task t (resolved b v (Some v) (pre @ g # post) res) =
           resolved b v (Some v) (pre @ g # post') res'"
proof (cases t)
  case (React r w)
  with assms have w: "w = v" by simp
  have ret: "\<exists>post' res'. return_load k v (resolved b v (Some v) (pre @ g # post) res) =
           resolved b v (Some v) (pre @ g # post') res'" for k
    by (cases k; simp add: return_load_resolved_App return_load_resolved_Get
        del: return_load.simps; blast)
  show ?thesis
    by (cases r) (simp_all add: React w run_task_resolved_Await run_task_resolved_Follow ret
        del: run_task.simps return_load.simps)
next
  case (Get_resume c setting dflt)
  show ?thesis
    by (simp add: Get_resume run_task_resolved_Get del: run_task.simps) blast
qed

lemma run_prefix:
  assumes "list_all (task_ok v) pre"
  shows "\<exists>post' res'. exec (replicate (length pre) Tick)
            (resolved b v (Some v) (pre @ g # post) res) =
           resolved b v (Some v) (g # post') res'"
  using assms
proof (induction pre arbitrary: post res)
  case Nil
  show ?case by simp blast
next
  case (Cons t pre)
  then have t: "task_ok v t" and pre: "list_all (task_ok v) pre"
    by simp_all
  from run_task_keeps_position [OF t] obtain post1 res1 where
    "run_task t (resolved b v (Some v) (pre @ g # post) res) =
       resolved b v (Some v) (pre @ g # post1) res1"
    by blast
  with Cons.IH [OF pre, of post1 res1] show ?case
    by (simp add: tick_resolved_Cons del: run_task.simps)
qed

lemma get_settles:
  assumes "loaded b v st"
  shows "results (exec (Call_get c setting dflt # replicate (Suc (length (microtasks st))) Tick) st) c
         = Some (get_outcome (get_body (Some v) setting dflt))"
proof -
  from assms obtain mts res where st: "st = resolved b v (Some v) mts res"
    and ok: "list_all (task_ok v) mts"
    unfolding loaded_def by blast
  have len: "length (microtasks st) = length mts"
    by (simp add: st resolved_def)
  have call: "step (Call_get c setting dflt) st =
                resolved b v (Some v) (mts @ Get_resume c setting dflt # []) res"
    by (simp add: st get_def load_resolved_Some return_load_resolved_Get del: return_load.simps)
  from run_prefix [OF ok, of b "Get_resume c setting dflt" "[]" res] obtain post' res' where
    "exec (replicate (length mts) Tick) (step (Call_get c setting dflt) st) =
       resolved b v (Some v) (Get_resume c setting dflt # post') res'"
    unfolding call by blast
  then have "exec (replicate (Suc (length mts)) Tick) (step (Call_get c setting dflt) st) =
       resolved b v (Some v) post' (res'(c \<mapsto> get_outcome (get_body (Some v) setting dflt)))"
    by (simp only: exec_replicate_Suc)
       (simp add: tick_resolved_Cons run_task_resolved_Get del: run_task.simps)
  then show ?thesis
    by (simp add: len resolved_def)
qed

lemma in_flight_fulfilled:
  assumes "in_flight b st" and "mapSettingsResponse (Some r) = Inr v"
  shows "resolving b v (step (Fetch_ok 0 r) st)"
proof -
  from assms(1) obtain rs where st: "st = waiting b rs [0] [] []" and cf: "creator_first rs"
    unfolding in_flight_def by blast
  show ?thesis
    unfolding resolving_def using cf by (auto simp add: st fetch_fulfilled_in_flight assms(2))
qed

lemma resolving_tick:
  assumes "resolving b v st"
  shows "loaded b v (step Tick st)"
proof -
  from assms obtain rs where st: "st = resolved b v None (map (\<lambda>r. React r v) rs) Map.empty"
    and cf: "creator_first rs"
    unfolding resolving_def by blast
  from cf obtain k ks where rs: "rs = Await k # map Follow ks"
    unfolding creator_first_def by blast
  have rest: "list_all (task_ok v) (map (\<lambda>r. React r v) (map Follow ks))"
    by (induction ks) simp_all
  show ?thesis
    unfolding st rs
    by (simp add: tick_resolved_Cons run_task_resolved_Await del: run_task.simps return_load.simps)
       (rule loaded_return_load [OF _ results_ok_empty], use rest in simp)
qed

lemma cost_bound: "sum_list (map cost mts) \<le> 2 * length mts"
proof (induction mts)
  case Nil
  show ?case by simp
next
  case (Cons t mts)
  then show ?case by (cases t) simp_all
qed

lemma cost_positive: "sum_list (map cost mts) = 0 \<Longrightarrow> mts = []"
proof (cases mts)
  case (Cons t ts)
  assume "sum_list (map cost mts) = 0"
  with Cons show ?thesis by (cases t) simp_all
qed simp

lemma tick_cost:
  assumes "loaded b v st"
  shows "sum_list (map cost (microtasks (step Tick st))) \<le> sum_list (map cost (microtasks st)) - 1"
proof -
  from assms obtain mts res where st: "st = resolved b v (Some v) mts res"
    unfolding loaded_def by blast
  show ?thesis
  proof (cases mts)
    case Nil
    then show ?thesis by (simp add: st tick_resolved_Nil)
  next
    case (Cons t ts)
    show ?thesis
    proof (cases t)
      case (React r w)
      with Cons show ?thesis
        by (cases r)
           (auto simp add: st tick_resolved_Cons run_task_resolved_Await run_task_resolved_Follow
              return_load_resolved split: caller.splits
              simp del: run_task.simps return_load.simps)
    next
      case (Get_resume c' k' d')
      with Cons show ?thesis
        by (simp add: st tick_resolved_Cons run_task_resolved_Get del: run_task.simps)
    qed
  qed
qed

lemma drain:
  assumes "loaded b v st" and "sum_list (map cost (microtasks st)) \<le> n"
  shows "microtasks (exec (replicate n Tick) st) = []"
  using assms
proof (induction n arbitrary: st)
  case 0
  then show ?case by (simp add: cost_positive)
next
  case (Suc n)
  have "loaded b v (step Tick st)"
    using Suc.prems(1) by (rule loaded_step)
  moreover have "sum_list (map cost (microtasks (step Tick st))) \<le> n"
    using tick_cost [OF Suc.prems(1)] Suc.prems(2) by simp
  ultimately have "microtasks (exec (replicate n Tick) (step Tick st)) = []"
    by (rule Suc.IH)
  then show ?case by simp
qed

lemma tracked_drained:
  assumes "loaded b v st" and "tracked c k d st" and "microtasks st = []"
  shows "results st c = Some (get_outcome (get_body (Some v) k d))"
proof -
  from assms(1) obtain mts res where st: "st = resolved b v (Some v) mts res"
    unfolding loaded_def by blast
  with assms(2,3) show ?thesis
    by (auto simp add: track_defs)
qed

lemma get_settles_in_run:
  fixes mode origin k :: string and es es' :: "event list" and c :: cid and d :: jsval
    and s :: Settings
  defines "st \<equiv> exec (es @ Call_get c k d # es') (init mode origin)"
  assumes fresh: "Some c \<notin> call_id ` set (es @ es')" and cached: "settings st = Some s"
  shows "results (exec (replicate (2 * length (microtasks st)) Tick) st) c =
           Some (get_outcome (get_body (Some s) k d))"
proof -
  define b where "b = base mode origin"
  define n where "n = 2 * length (microtasks st)"
  have inv0: "inv b (exec es (init mode origin))"
    unfolding b_def by (rule inv_reachable)
  have "inv b (init mode origin)"
    unfolding b_def using inv_reachable [of mode origin "[]"] by simp
  moreover have "Some c \<notin> call_id ` set es"
    using fresh by auto
  ultimately have "unused c (exec es (init mode origin))"
    using unused_init by (intro unused_exec)
  then have "awaiting c k d (step (Call_get c k d) (exec es (init mode origin)))"
    by (rule call_get_awaiting [OF inv0])
  then have "tracked c k d (exec es' (step (Call_get c k d) (exec es (init mode origin))))"
    using fresh by (intro tracked_exec [where b = b] inv_step inv0) (auto simp add: tracked_def)
  then have tr: "tracked c k d st"
    by (simp add: st_def exec_append)
  have inv: "inv b st"
    unfolding st_def b_def by (rule inv_reachable)
  have l: "loaded b s st"
    using inv cached by (rule inv_settings_loaded)
  have l': "loaded b s (exec (replicate n Tick) st)"
    using l by (rule loaded_exec)
  have tr': "tracked c k d (exec (replicate n Tick) st)"
    using inv tr by (rule tracked_exec) auto
  have "microtasks (exec (replicate n Tick) st) = []"
    using l cost_bound [of "microtasks st"] unfolding n_def by (intro drain) auto
  with l' tr' show ?thesis
    unfolding n_def by (rule tracked_drained)
qed

section \<open>The claims\<close>

text \<open>
  C1. Once the settings slot is filled, it stays filled with the same value whatever
  happens next, no later event issues a request, and a call of \<open>load()\<close> settles at
  the call with the cached value and changes nothing else.
\<close>

theorem cached_load:
  fixes mode origin :: string and es es' :: "event list" and c :: cid and v :: Settings
  defines "st \<equiv> exec es (init mode origin)"
  defines "st' \<equiv> exec es' st"
  assumes "settings st = Some v"
  shows "settings st' = Some v \<and> requests st' = requests st
         \<and> step (Call_load c) st' = st'\<lparr>results := (results st')(c \<mapsto> Load_fulfilled v)\<rparr>"
proof -
  have "loaded (base mode origin) v st"
    using inv_reachable assms(3) unfolding st_def by (rule inv_settings_loaded)
  then have l': "loaded (base mode origin) v st'" and l: "loaded (base mode origin) v st"
    unfolding st'_def by (simp_all add: loaded_exec)
  have "settings st' = Some v" "requests st' = requests st"
    by (simp_all add: loaded_fields [OF l'] loaded_fields [OF l])
  moreover have "step (Call_load c) st' = st'\<lparr>results := (results st')(c \<mapsto> Load_fulfilled v)\<rparr>"
    using loaded_fields(1) [OF l'] by (simp add: load_def)
  ultimately show ?thesis by simp
qed

theorem cached_load_witness:
  "settings (exec [Call_load 0, Fetch_ok 0 \<lparr>data = Some \<lparr>api_url = JStr ''http://example.com''\<rparr>\<rparr>, Tick]
      (init ''production'' ''https://cloud.example'')) = Some \<lparr>apiUrl = JStr ''http://example.com''\<rparr>
   \<and> requests (exec [Call_get 1 ''apiUrl'' JUndefined, Tick]
        (exec [Call_load 0, Fetch_ok 0 \<lparr>data = Some \<lparr>api_url = JStr ''http://example.com''\<rparr>\<rparr>, Tick]
          (init ''production'' ''https://cloud.example''))) =
       [\<lparr>path = ''/ui-settings'', baseURL = ''https://cloud.example'', resolves = 0\<rparr>]
   \<and> results (step (Call_load 2) (exec [Call_get 1 ''apiUrl'' JUndefined, Tick]
        (exec [Call_load 0, Fetch_ok 0 \<lparr>data = Some \<lparr>api_url = JStr ''http://example.com''\<rparr>\<rparr>, Tick]
          (init ''production'' ''https://cloud.example'')))) 2 =
       Some (Load_fulfilled \<lparr>apiUrl = JStr ''http://example.com''\<rparr>)"
  using cached_load [of "[Call_load 0, Fetch_ok 0 \<lparr>data = Some \<lparr>api_url = JStr ''http://example.com''\<rparr>\<rparr>, Tick]"
      "''production''" "''https://cloud.example''" "\<lparr>apiUrl = JStr ''http://example.com''\<rparr>"
      "[Call_get 1 ''apiUrl'' JUndefined, Tick]" 2]
  by (simp add: run_defs)



text \<open>
  C3. The request is in flight, after any calls at all, and succeeds with the body
  \<open>{"api_url": s}\<close>. The mapper renames the member: it returns \<open>{apiUrl: s}\<close>. Once
  the first promise job has run (\<open>st1\<close>) that value is cached, it stays cached whatever
  happens next (\<open>st2\<close>), and a \<open>get('apiUrl')\<close> called then, with or without a
  default, is fulfilled with \<open>s\<close> as soon as the jobs queued before its own have run.
\<close>

theorem successful_load_then_get:
  fixes mode origin s :: string and es es' :: "event list" and i :: nat and c :: cid
    and dflt :: jsval
  defines "st \<equiv> exec es (init mode origin)"
  defines "st1 \<equiv> exec [Fetch_ok i \<lparr>data = Some \<lparr>api_url = JStr s\<rparr>\<rparr>, Tick] st"
  defines "st2 \<equiv> exec es' st1"
  assumes "i \<in> set (outstanding st)"
  shows "mapSettingsResponse (Some \<lparr>data = Some \<lparr>api_url = JStr s\<rparr>\<rparr>) = Inr \<lparr>apiUrl = JStr s\<rparr>
         \<and> settings st1 = Some \<lparr>apiUrl = JStr s\<rparr>
         \<and> settings st2 = Some \<lparr>apiUrl = JStr s\<rparr>
         \<and> results (exec (Call_get c ''apiUrl'' dflt # replicate (Suc (length (microtasks st2))) Tick) st2) c
             = Some (Get_fulfilled (JStr s))"
proof -
  define b where "b = base mode origin"
  define v where "v = \<lparr>apiUrl = JStr s\<rparr>"
  have map: "mapSettingsResponse (Some \<lparr>data = Some \<lparr>api_url = JStr s\<rparr>\<rparr>) = Inr v"
    by (simp add: mapSettingsResponse_def v_def)
  have fl: "in_flight b st" and i: "i = 0"
    using inv_reachable assms(4) unfolding st_def b_def by (rule inv_outstanding_in_flight)+
  have l1: "loaded b v st1"
    unfolding st1_def i using resolving_tick [OF in_flight_fulfilled [OF fl map]] by simp
  then have l2: "loaded b v st2"
    unfolding st2_def by (rule loaded_exec)
  have "get_body (Some v) ''apiUrl'' dflt = Inr (JStr s)"
    by (simp add: get_body_def lookup_def v_def)
  with get_settles [OF l2, of c "''apiUrl''" dflt] loaded_fields(1) [OF l1] loaded_fields(1) [OF l2] map
  show ?thesis
    by (simp add: v_def)
qed

theorem successful_load_then_get_witness:
  "0 \<in> set (outstanding (exec [Call_load 0] (init ''production'' ''https://cloud.example'')))
   \<and> results (exec [Call_get 1 ''apiUrl'' JUndefined, Tick]
        (exec [Fetch_ok 0 \<lparr>data = Some \<lparr>api_url = JStr ''http://example.com''\<rparr>\<rparr>, Tick]
          (exec [Call_load 0] (init ''production'' ''https://cloud.example'')))) 1 =
       Some (Get_fulfilled (JStr ''http://example.com''))"
  using successful_load_then_get [where es = "[Call_load 0]" and mode = "''production''"
      and origin = "''https://cloud.example''" and i = 0 and s = "''http://example.com''"
      and es' = "[]" and c = 1 and dflt = JUndefined]
  by (simp add: run_defs)

text \<open>
  C4. When the request fails while it is in flight, whatever calls were made before and
  whatever happens afterwards: if the error has no \<open>status\<close> field, exactly one
  notification is shown, with severity \<open>error\<close> and \<open>timeout: false\<close>; if it has a
  \<open>status\<close> field holding an HTTP status code (100 to 599), none is shown. No
  notification was shown before the failure. Both cases follow from the handler's test
  \<open>!error.status\<close>, which the last conjunct states for every value of the field.
\<close>

theorem failure_notification:
  fixes mode origin :: string and es es' :: "event list" and i :: nat and e :: AxiosError
    and n :: int
  defines "st \<equiv> exec es (init mode origin)"
  defines "st' \<equiv> exec es' (step (Fetch_fail i e) st)"
  assumes "i \<in> set (outstanding st)"
  shows "toasts st = []
         \<and> (status e = JUndefined \<longrightarrow>
              toasts st' =
                [\<lparr>message = ''ConnectionToastMessage'', severity = ''error'', timeout = JBool False\<rparr>])
         \<and> (status e = JNum n \<and> 100 \<le> n \<and> n \<le> 599 \<longrightarrow> toasts st' = [])
         \<and> toasts st' =
             (if truthy (status e) then []
              else [\<lparr>message = ''ConnectionToastMessage'', severity = ''error'', timeout = JBool False\<rparr>])"
proof -
  have fl: "in_flight (base mode origin) st" and i: "i = 0"
    using inv_reachable assms(3) unfolding st_def by (rule inv_outstanding_in_flight)+
  have "hung (base mode origin) (if truthy (status e) then [] else [connection_toast]) [TypeError] st'"
    unfolding st'_def i by (rule hung_exec) (rule in_flight_rejected [OF fl])
  from hung_fields(6) [OF this] have "toasts st' =
           (if truthy (status e) then []
            else [\<lparr>message = ''ConnectionToastMessage'', severity = ''error'', timeout = JBool False\<rparr>])"
    by (simp add: connection_toast_def)
  moreover from fl have "toasts st = []"
    by (auto simp add: in_flight_def waiting_def)
  ultimately show ?thesis by auto
qed

theorem failure_notification_witness:
  "0 \<in> set (outstanding (exec [Call_load 0] (init ''production'' ''https://cloud.example'')))
   \<and> toasts (exec [Call_load 1, Tick]
        (step (Fetch_fail 0 \<lparr>status = JUndefined\<rparr>)
          (exec [Call_load 0] (init ''production'' ''https://cloud.example'')))) =
       [\<lparr>message = ''ConnectionToastMessage'', severity = ''error'', timeout = JBool False\<rparr>]
   \<and> toasts (exec [Call_load 1, Tick]
        (step (Fetch_fail 0 \<lparr>status = JNum 503\<rparr>)
          (exec [Call_load 0] (init ''production'' ''https://cloud.example'')))) = []"
  using failure_notification [where i = 0 and es = "[Call_load 0]" and mode = "''production''"
      and origin = "''https://cloud.example''" and es' = "[Call_load 1, Tick]"
      and e = "\<lparr>status = JUndefined\<rparr>" and n = 503]
    failure_notification [where i = 0 and es = "[Call_load 0]" and mode = "''production''"
      and origin = "''https://cloud.example''" and es' = "[Call_load 1, Tick]"
      and e = "\<lparr>status = JNum 503\<rparr>" and n = 503]
  by (simp add: run_defs)

text \<open>
  C5. A \<open>get(setting)\<close> without a default, called at any point of a run: on a fresh
  class, where it starts the load; while the request is in flight, where it joins the
  load; or on a filled cache. Once \<open>load()\<close> has completed with settings in which the
  lookup of \<open>setting\<close> gives \<open>undefined\<close>, and the promise jobs queued by then have
  run, the call is rejected with the string that names the setting (\<open>c\<close> names this
  call and no other call of the run). And in every run whatsoever, a call that is rejected
  is rejected with a string of that form: it is the only error the class delivers to a
  caller.
\<close>

theorem missing_setting_throws:
  fixes mode origin mode' origin' setting :: string and es es' es'' :: "event list"
    and c a :: cid and s :: Settings and err :: js_error
  defines "st \<equiv> exec (es @ Call_get c setting JUndefined # es') (init mode origin)"
  assumes "Some c \<notin> call_id ` set (es @ es')"
    and "settings st = Some s" and "lookup (settings st) setting = JUndefined"
  shows "results (exec (replicate (2 * length (microtasks st)) Tick) st) c
           = Some (Rejected (Thrown
               (''UI setting \"'' @ setting @ ''\" does not exist and no default was provided.'')))
         \<and> (results (exec es'' (init mode' origin')) a = Some (Rejected err) \<longrightarrow>
              (\<exists>k. err = Thrown (''UI setting \"'' @ k @ ''\" does not exist and no default was provided.'')))"
proof -
  have "get_body (Some s) setting JUndefined = Inl (Thrown (missing_setting setting))"
    using assms(3,4) by (simp add: get_body_def)
  with get_settles_in_run [OF assms(2), where k = setting and d = JUndefined and mode = mode
      and origin = origin and s = s] assms(3)
  have "results (exec (replicate (2 * length (microtasks st)) Tick) st) c
           = Some (Rejected (Thrown (missing_setting setting)))"
    by (simp add: st_def)
  moreover have "results (exec es'' (init mode' origin')) a = Some (Rejected err) \<longrightarrow>
              (\<exists>k. err = Thrown (missing_setting k))"
    using inv_rejections [OF inv_reachable] by blast
  ultimately show ?thesis
    unfolding missing_setting_def by simp
qed

theorem missing_setting_throws_witness:
  "Some 0 \<notin> call_id ` set [Fetch_ok 0 \<lparr>data = Some \<lparr>api_url = JStr ''http://example.com''\<rparr>\<rparr>, Tick]
   \<and> settings (exec [Call_get 0 ''missingKey'' JUndefined,
                     Fetch_ok 0 \<lparr>data = Some \<lparr>api_url = JStr ''http://example.com''\<rparr>\<rparr>, Tick]
        (init ''production'' ''https://cloud.example'')) = Some \<lparr>apiUrl = JStr ''http://example.com''\<rparr>
   \<and> lookup (Some \<lparr>apiUrl = JStr ''http://example.com''\<rparr>) ''missingKey'' = JUndefined
   \<and> results (exec [Call_get 0 ''missingKey'' JUndefined,
                    Fetch_ok 0 \<lparr>data = Some \<lparr>api_url = JStr ''http://example.com''\<rparr>\<rparr>, Tick, Tick, Tick]
        (init ''production'' ''https://cloud.example'')) 0 =
       Some (Rejected (Thrown ''UI setting \"missingKey\" does not exist and no default was provided.''))
   \<and> results (exec [Call_load 0, Call_get 1 ''missingKey'' JUndefined,
                    Fetch_ok 0 \<lparr>data = Some \<lparr>api_url = JStr ''http://example.com''\<rparr>\<rparr>, Tick,
                    Tick, Tick]
        (init ''production'' ''https://cloud.example'')) 1 =
       Some (Rejected (Thrown ''UI setting \"missingKey\" does not exist and no default was provided.''))"
  using missing_setting_throws [where es = "[]"
      and es' = "[Fetch_ok 0 \<lparr>data = Some \<lparr>api_url = JStr ''http://example.com''\<rparr>\<rparr>, Tick]"
      and mode = "''production''" and origin = "''https://cloud.example''"
      and s = "\<lparr>apiUrl = JStr ''http://example.com''\<rparr>" and setting = "''missingKey''" and c = 0
      and es'' = "[Call_get 0 ''missingKey'' JUndefined,
                   Fetch_ok 0 \<lparr>data = Some \<lparr>api_url = JStr ''http://example.com''\<rparr>\<rparr>, Tick, Tick]"
      and mode' = "''production''" and origin' = "''https://cloud.example''" and a = 0
      and err = "Thrown ''UI setting \"missingKey\" does not exist and no default was provided.''"]
    missing_setting_throws [where es = "[Call_load 0]"
      and es' = "[Fetch_ok 0 \<lparr>data = Some \<lparr>api_url = JStr ''http://example.com''\<rparr>\<rparr>, Tick]"
      and mode = "''production''" and origin = "''https://cloud.example''"
      and s = "\<lparr>apiUrl = JStr ''http://example.com''\<rparr>" and setting = "''missingKey''" and c = 1
      and es'' = "[]" and mode' = "''production''" and origin' = "''https://cloud.example''" and a = 0
      and err = TypeError]
  by (simp add: run_defs numeral_2_eq_2)

text \<open>
  C6, evaluated. The settings are loaded and the setting looked up is \<open>undefined\<close>.
  With the default \<open>'fallback'\<close> the call is fulfilled with it. With the default
  \<open>''\<close>, a string as the signature asks for, the call is rejected, and the message
  says that no default was provided: so for a server that answers without \<open>api_url\<close>
  and the well-typed call \<open>get('apiUrl', '')\<close>, and so for \<open>get('missingKey', '')\<close>.
\<close>

theorem empty_default_is_rejected:
  "results (exec [Call_load 0, Fetch_ok 0 \<lparr>data = Some \<lparr>api_url = JStr ''http://example.com''\<rparr>\<rparr>, Tick,
                  Call_get 1 ''missingKey'' (JStr ''fallback''), Tick]
      (init ''production'' ''https://cloud.example'')) 1 = Some (Get_fulfilled (JStr ''fallback''))
   \<and> results (exec [Call_load 0, Fetch_ok 0 \<lparr>data = Some \<lparr>api_url = JStr ''http://example.com''\<rparr>\<rparr>, Tick,
                  Call_get 1 ''missingKey'' (JStr ''''), Tick]
      (init ''production'' ''https://cloud.example'')) 1 =
       Some (Rejected (Thrown ''UI setting \"missingKey\" does not exist and no default was provided.''))
   \<and> results (exec [Call_load 0, Fetch_ok 0 \<lparr>data = Some \<lparr>api_url = JUndefined\<rparr>\<rparr>, Tick,
                  Call_get 1 ''apiUrl'' (JStr ''''), Tick]
      (init ''production'' ''https://cloud.example'')) 1 =
       Some (Rejected (Thrown ''UI setting \"apiUrl\" does not exist and no default was provided.''))"
  by (simp add: run_defs)

text \<open>
  C7. A \<open>get(setting, dflt)\<close> with a falsy default, the empty string for one, called
  at any point of a run: on a fresh class, while the request is in flight, or on a filled
  cache. Once \<open>load()\<close> has completed with settings in which the lookup of
  \<open>setting\<close> gives \<open>undefined\<close>, and the promise jobs queued by then have run, the
  call has not returned its default: it is rejected with the error of a \<open>get\<close> that
  was given no default (\<open>c\<close> names this call and no other call of the run). The body of
  \<open>get\<close> does on the falsy default what it does on \<open>undefined\<close>, because it
  returns a default exactly when the default is truthy.
\<close>

theorem falsy_default_is_absent:
  fixes mode origin setting :: string and es es' :: "event list" and c :: cid
    and s :: Settings and dflt d :: jsval
  defines "st \<equiv> exec (es @ Call_get c setting dflt # es') (init mode origin)"
  assumes "Some c \<notin> call_id ` set (es @ es')"
    and "settings st = Some s" and "lookup (settings st) setting = JUndefined"
    and "\<not> truthy dflt"
  shows "results (exec (replicate (2 * length (microtasks st)) Tick) st) c
           = Some (Rejected (Thrown
               (''UI setting \"'' @ setting @ ''\" does not exist and no default was provided.'')))
         \<and> get_body (settings st) setting dflt = get_body (settings st) setting JUndefined
         \<and> get_body (settings st) setting d =
             (if truthy d then Inr d else Inl (Thrown (missing_setting setting)))
         \<and> \<not> truthy (JStr '''')"
proof -
  have body: "get_body (Some s) setting d' =
           (if truthy d' then Inr d' else Inl (Thrown (missing_setting setting)))" for d'
    using assms(3,4) by (simp add: get_body_def)
  from get_settles_in_run [OF assms(2), where k = setting and d = dflt and mode = mode
      and origin = origin and s = s] assms(3,5)
  have "results (exec (replicate (2 * length (microtasks st)) Tick) st) c
           = Some (Rejected (Thrown (missing_setting setting)))"
    by (simp add: st_def body)
  with body [of dflt] body [of JUndefined] body [of d] assms(3,5) show ?thesis
    by (simp add: missing_setting_def)
qed

theorem falsy_default_is_absent_witness:
  "Some 0 \<notin> call_id ` set [Fetch_ok 0 \<lparr>data = Some \<lparr>api_url = JStr ''http://example.com''\<rparr>\<rparr>, Tick]
   \<and> settings (exec [Call_get 0 ''missingKey'' (JStr ''''),
                     Fetch_ok 0 \<lparr>data = Some \<lparr>api_url = JStr ''http://example.com''\<rparr>\<rparr>, Tick]
        (init ''production'' ''https://cloud.example'')) = Some \<lparr>apiUrl = JStr ''http://example.com''\<rparr>
   \<and> lookup (Some \<lparr>apiUrl = JStr ''http://example.com''\<rparr>) ''missingKey'' = JUndefined
   \<and> \<not> truthy (JStr '''')
   \<and> results (exec [Call_get 0 ''missingKey'' (JStr ''''),
                    Fetch_ok 0 \<lparr>data = Some \<lparr>api_url = JStr ''http://example.com''\<rparr>\<rparr>, Tick, Tick, Tick]
        (init ''production'' ''https://cloud.example'')) 0 =
       Some (Rejected (Thrown ''UI setting \"missingKey\" does not exist and no default was provided.''))
   \<and> results (exec [Call_load 0, Fetch_ok 0 \<lparr>data = Some \<lparr>api_url = JStr ''http://example.com''\<rparr>\<rparr>, Tick,
                    Call_get 1 ''missingKey'' (JStr ''''), Tick, Tick]
        (init ''production'' ''https://cloud.example'')) 1 =
       Some (Rejected (Thrown ''UI setting \"missingKey\" does not exist and no default was provided.''))"
  using falsy_default_is_absent [where es = "[]"
      and es' = "[Fetch_ok 0 \<lparr>data = Some \<lparr>api_url = JStr ''http://example.com''\<rparr>\<rparr>, Tick]"
      and mode = "''production''" and origin = "''https://cloud.example''"
      and s = "\<lparr>apiUrl = JStr ''http://example.com''\<rparr>" and setting = "''missingKey''" and c = 0
      and dflt = "JStr ''''" and d = "JStr ''''"]
    falsy_default_is_absent [where
      es = "[Call_load 0, Fetch_ok 0 \<lparr>data = Some \<lparr>api_url = JStr ''http://example.com''\<rparr>\<rparr>, Tick]"
      and es' = "[]"
      and mode = "''production''" and origin = "''https://cloud.example''"
      and s = "\<lparr>apiUrl = JStr ''http://example.com''\<rparr>" and setting = "''missingKey''" and c = 1
      and dflt = "JStr ''''" and d = "JStr ''''"]
  by (simp add: run_defs numeral_2_eq_2)

text \<open>
  C8. The base URL is \<open>http://127.0.0.1:4200\<close> when \<open>MODE()\<close> returns exactly
  \<open>development\<close> and the page's origin for every other mode. It is computed once, when
  the class is initialised: no run of events changes the slot, and the only request a run
  ever issues is a GET of \<open>/ui-settings\<close> against that base URL.
\<close>

theorem baseUrl_resolution:
  "baseUrl (init mode origin) = (if mode = ''development'' then ''http://127.0.0.1:4200'' else origin)
   \<and> baseUrl (exec es (init mode origin)) = baseUrl (init mode origin)
   \<and> requests (exec es (init mode origin)) =
       (if promise (exec es (init mode origin)) = None then []
        else [\<lparr>path = ''/ui-settings'', baseURL = baseUrl (init mode origin), resolves = 0\<rparr>])"
  using inv_requests [OF inv_reachable [of mode origin es]]
  by (simp add: base_def the_request_def) (simp add: init_def)

theorem baseUrl_resolution_witness:
  "baseUrl (init ''development'' ''https://cloud.example'') = ''http://127.0.0.1:4200''
   \<and> baseUrl (init ''production'' ''https://cloud.example'') = ''https://cloud.example''
   \<and> requests (exec [Call_load 0, Call_get 1 ''apiUrl'' JUndefined]
         (init ''production'' ''https://cloud.example'')) =
       [\<lparr>path = ''/ui-settings'', baseURL = ''https://cloud.example'', resolves = 0\<rparr>]"
  using baseUrl_resolution [of "''development''" "''https://cloud.example''" "[]"]
    baseUrl_resolution [of "''production''" "''https://cloud.example''"
      "[Call_load 0, Call_get 1 ''apiUrl'' JUndefined]"]
  by (simp add: init_def load_def get_def subscribe_def)

text \<open>
  C9, evaluated. A \<open>get\<close> with a default and a \<open>load\<close> are waiting when the request
  fails, once with a connectivity error and once with an HTTP error; the promise jobs are
  then given every chance to run. Neither call has settled, with degraded settings or with
  anything else: the mapper threw, the settings slot is still \<open>null\<close> and nothing is left
  to run.
\<close>

theorem failed_load_leaves_callers_pending:
  "(let st = exec [Call_get 0 ''apiUrl'' (JStr ''http://fallback''), Call_load 1,
                  Fetch_fail 0 \<lparr>status = JUndefined\<rparr>, Tick, Tick, Tick]
               (init ''production'' ''https://cloud.example'')
    in results st 0 = None \<and> results st 1 = None \<and> settings st = None
       \<and> unhandled st = [TypeError] \<and> microtasks st = [] \<and> outstanding st = [])
   \<and> (let st = exec [Call_get 0 ''apiUrl'' (JStr ''http://fallback''), Call_load 1,
                  Fetch_fail 0 \<lparr>status = JNum 500\<rparr>, Tick, Tick, Tick]
               (init ''production'' ''https://cloud.example'')
    in results st 0 = None \<and> results st 1 = None \<and> settings st = None
       \<and> unhandled st = [TypeError] \<and> microtasks st = [] \<and> outstanding st = [])"
  by (simp add: run_defs)

text \<open>
  C10. When the request fails while it is in flight, whatever calls were made before and
  whatever happens afterwards: the \<open>catch\<close> handler's \<open>undefined\<close> reaches the mapper,
  which throws a \<open>TypeError\<close> that nothing handles; the promise in the static slot stays
  pending, the settings slot stays \<open>null\<close>, no promise job is ever queued and no call of
  \<open>load()\<close> or \<open>get()\<close> has settled.
\<close>

theorem failed_fetch_never_settles:
  fixes mode origin :: string and es es' :: "event list" and i :: nat and e :: AxiosError
  defines "st \<equiv> exec es (init mode origin)"
  defines "st' \<equiv> exec es' (step (Fetch_fail i e) st)"
  assumes "i \<in> set (outstanding st)"
  shows "mapSettingsResponse None = Inl TypeError \<and> unhandled st' = [TypeError]
         \<and> promise st' = Some 0 \<and> map pstate (store st') = [None]
         \<and> settings st' = None \<and> results st' = Map.empty \<and> microtasks st' = []"
proof -
  have fl: "in_flight (base mode origin) st" and i: "i = 0"
    using inv_reachable assms(3) unfolding st_def by (rule inv_outstanding_in_flight)+
  have "hung (base mode origin) (if truthy (status e) then [] else [connection_toast]) [TypeError] st'"
    unfolding st'_def i by (rule hung_exec) (rule in_flight_rejected [OF fl])
  from hung_fields [OF this] show ?thesis
    by (simp add: mapSettingsResponse_def)
qed

theorem failed_fetch_never_settles_witness:
  "0 \<in> set (outstanding (exec [Call_load 0, Call_get 1 ''apiUrl'' (JStr ''http://fallback'')]
       (init ''production'' ''https://cloud.example'')))
   \<and> results (exec [Tick, Call_load 2, Tick, Tick]
        (step (Fetch_fail 0 \<lparr>status = JUndefined\<rparr>)
          (exec [Call_load 0, Call_get 1 ''apiUrl'' (JStr ''http://fallback'')]
            (init ''production'' ''https://cloud.example'')))) = Map.empty
   \<and> settings (exec [Tick, Call_load 2, Tick, Tick]
        (step (Fetch_fail 0 \<lparr>status = JUndefined\<rparr>)
          (exec [Call_load 0, Call_get 1 ''apiUrl'' (JStr ''http://fallback'')]
            (init ''production'' ''https://cloud.example'')))) = None"
  using failed_fetch_never_settles [of 0
      "[Call_load 0, Call_get 1 ''apiUrl'' (JStr ''http://fallback'')]"
      "''production''" "''https://cloud.example''" "[Tick, Call_load 2, Tick, Tick]"
      "\<lparr>status = JUndefined\<rparr>"]
  by (simp add: run_defs)

end
